theory Spec2Isabelle
  imports Complex_Main
begin

section \<open>Python values\<close>

text \<open>
  The request bodies are JSON, so an item is a Python dict from strings to JSON values.
  Dicts keep their insertion order, hence association lists; a lookup reads the first
  binding of the key. Floats are idealised as reals (no rounding, no NaN); strings are
  lists of 8-bit characters and the case mappings below are the ASCII ones.
\<close>

datatype pyval =
    PNone
  | PBool bool
  | PInt int
  | PFloat real
  | PStr string
  | PList "pyval list"
  | PDict "(string \<times> pyval) list"

type_synonym pydict = "(string \<times> pyval) list"

text \<open>Python's truth value of an object, as \<open>not x\<close> and \<open>x or y\<close> use it.\<close>

fun truthy :: "pyval \<Rightarrow> bool" where
  "truthy PNone = False"
| "truthy (PBool b) = b"
| "truthy (PInt i) = (i \<noteq> 0)"
| "truthy (PFloat x) = (x \<noteq> 0)"
| "truthy (PStr s) = (s \<noteq> [])"
| "truthy (PList xs) = (xs \<noteq> [])"
| "truthy (PDict d) = (d \<noteq> [])"

text \<open>\<open>d.get(k)\<close> and \<open>d.get(k, default)\<close>.\<close>

definition get_default :: "pydict \<Rightarrow> string \<Rightarrow> pyval \<Rightarrow> pyval" where
  "get_default d k dflt = (case map_of d k of None \<Rightarrow> dflt | Some v \<Rightarrow> v)"

definition get :: "pydict \<Rightarrow> string \<Rightarrow> pyval" where
  "get d k = get_default d k PNone"

text \<open>\<open>d[k] = v\<close>: an existing key keeps its place, a new key goes to the end.\<close>

fun dict_set :: "string \<Rightarrow> pyval \<Rightarrow> pydict \<Rightarrow> pydict" where
  "dict_set k v [] = [(k, v)]"
| "dict_set k v ((k', v') # d) =
     (if k = k' then (k, v) # d else (k', v') # dict_set k v d)"

definition py_or :: "pyval \<Rightarrow> pyval \<Rightarrow> pyval" where
  "py_or a b = (if truthy a then a else b)"

definition lower_char :: "char \<Rightarrow> char" where
  "lower_char c =
     (let k = (of_char c :: nat) in if 65 \<le> k \<and> k \<le> 90 then char_of (k + 32) else c)"

definition upper_char :: "char \<Rightarrow> char" where
  "upper_char c =
     (let k = (of_char c :: nat) in if 97 \<le> k \<and> k \<le> 122 then char_of (k - 32) else c)"

definition str_lower :: "string \<Rightarrow> string" where
  "str_lower s = map lower_char s"

definition str_upper :: "string \<Rightarrow> string" where
  "str_upper s = map upper_char s"

text \<open>The characters \<open>str.strip()\<close> removes: tab, LF, VT, FF, CR, FS, GS, RS, US, space.\<close>

definition is_space :: "char \<Rightarrow> bool" where
  "is_space c = (let k = (of_char c :: nat) in (9 \<le> k \<and> k \<le> 13) \<or> (28 \<le> k \<and> k \<le> 32))"

definition str_strip :: "string \<Rightarrow> string" where
  "str_strip s = rev (dropWhile is_space (rev (dropWhile is_space s)))"

text \<open>\<open>sep.join(xs)\<close>.\<close>

fun join :: "string \<Rightarrow> string list \<Rightarrow> string" where
  "join sep [] = []"
| "join sep [x] = x"
| "join sep (x # y # ys) = x @ sep @ join sep (y # ys)"

datatype exn =
    AttributeError
  | ValueError
  | Uncaught string string

text \<open>
  \<open>x.lower()\<close> exists on strings only; on any other JSON value the attribute lookup
  raises \<open>AttributeError\<close>.
\<close>

fun py_lower :: "pyval \<Rightarrow> exn + string" where
  "py_lower (PStr s) = Inr (str_lower s)"
| "py_lower v = Inl AttributeError"

text \<open>\<open>time.sleep(d)\<close> raises \<open>ValueError\<close> for a negative length.\<close>

definition py_sleep :: "real \<Rightarrow> exn + unit" where
  "py_sleep d = (if d < 0 then Inl ValueError else Inr ())"

section \<open>The call service (eleven_batch_call.py and app.py)\<close>

text \<open>
  The ElevenLabs client is outside the repository. The \<open>k\<close>-th outbound call of a run
  either raises an exception (its type name and its message) or answers; of an answer
  the model keeps what the module reads from it: the conversation id, the call id of the
  chosen provider and the normalised response dict (copied under \<open>debug\<close>).
\<close>

datatype reply =
    Raised string string
  | Replied pyval pyval pyval

text \<open>
  What a run does, in order: \<open>Net\<close> is one outbound call of the SDK (provider, agent id,
  agent phone number id, destination), \<open>Dial\<close> is one finished invocation of
  \<open>dial_once\<close> with what it returned or raised, \<open>Backoff\<close> is the sleep of the retry
  wrapper and \<open>Pace\<close> the sleep of the batch loop after the item of the given index.
\<close>

datatype event =
    Net string pyval pyval pyval
  | Dial "exn + pydict"
  | Backoff real
  | Pace nat real

text \<open>The two modules differ in \<open>dial_once\<close> only: app.py has no \<open>debug\<close> key.\<close>

datatype variant = App | ElevenBatch

definition required :: "string list" where
  "required = [''to_number'', ''agent_id'', ''agent_phone_number_id'']"

definition call_id_key :: "string \<Rightarrow> string" where
  "call_id_key provider = (if provider = ''sip'' then ''sip_call_id'' else ''callSid'')"

definition success_dict :: "variant \<Rightarrow> bool \<Rightarrow> string \<Rightarrow> pyval \<Rightarrow> pyval \<Rightarrow> pyval \<Rightarrow> pydict" where
  "success_dict v debug provider conv cid raw =
     [(''ok'', PBool True), (''provider'', PStr provider),
      (''conversation_id'', conv), (call_id_key provider, cid)]
     @ (if v = ElevenBatch \<and> debug then [(''raw'', raw)] else [])"

definition failure_dict :: "string \<Rightarrow> pydict" where
  "failure_dict msg = [(''ok'', PBool False), (''error'', PStr msg)]"

text \<open>
  \<open>dial_once\<close>: one attempt. The state is the number of outbound calls made so far; the
  result is what the function returns (\<open>Inr\<close>) or raises (\<open>Inl\<close>), the events it caused
  and the new state.
\<close>

definition dial_once ::
  "variant \<Rightarrow> (nat \<Rightarrow> reply) \<Rightarrow> pydict \<Rightarrow> nat \<Rightarrow> (exn + pydict) \<times> event list \<times> nat" where
  "dial_once v env payload n =
     (case py_lower (py_or (get payload ''provider'') (PStr ''twilio'')) of
        Inl e \<Rightarrow> (Inl e, [Dial (Inl e)], n)
      | Inr provider \<Rightarrow>
          (let to_number = get payload ''to_number'';
               agent_id = get payload ''agent_id'';
               agent_phone_number_id = get payload ''agent_phone_number_id'';
               debug = truthy (get_default payload ''debug'' (PBool False));
               missing = filter (\<lambda>k. \<not> truthy (get payload k)) required
           in if missing \<noteq> [] then
                (let r = failure_dict (''Missing fields: '' @ join '', '' missing)
                 in (Inr r, [Dial (Inr r)], n))
              else
                (let p = (if provider = ''sip'' then ''sip'' else ''twilio'');
                     call = Net p agent_id agent_phone_number_id to_number;
                     r = (case env n of
                            Replied conv cid raw \<Rightarrow> success_dict v debug p conv cid raw
                          | Raised tname msg \<Rightarrow> failure_dict (tname @ '': '' @ msg))
                 in (Inr r, [call, Dial (Inr r)], Suc n))))"

text \<open>
  \<open>dial_with_retries\<close>: the loop \<open>while attempts <= retries\<close>, with the loop variables
  \<open>attempts\<close> and \<open>last\<close> (here \<open>last_result\<close>) as arguments.
\<close>

function retry_loop ::
  "variant \<Rightarrow> (nat \<Rightarrow> reply) \<Rightarrow> pydict \<Rightarrow> int \<Rightarrow> real \<Rightarrow> nat \<Rightarrow> pydict option \<Rightarrow> nat
   \<Rightarrow> (exn + pydict) \<times> event list \<times> nat" where
  "retry_loop v env item retries backoff_seconds attempts last_result n =
     (if int attempts \<le> retries then
        (let attempts' = attempts + 1 in
         case dial_once v env item n of
           (Inl e, evs, n') \<Rightarrow> (Inl e, evs, n')
         | (Inr result, evs, n') \<Rightarrow>
             if truthy (get result ''ok'') then
               (Inr (dict_set ''attempts'' (PInt (int attempts')) result), evs, n')
             else
               (let d = min (backoff_seconds * real attempts') 6 in
                case py_sleep d of
                  Inl e \<Rightarrow> (Inl e, evs, n')
                | Inr u \<Rightarrow>
                    (case retry_loop v env item retries backoff_seconds attempts'
                            (Some result) n' of
                       (r, evs', n'') \<Rightarrow> (r, evs @ [Backoff d] @ evs', n''))))
      else
        (let last' = (case last_result of
                        None \<Rightarrow> failure_dict ''Unknown error''
                      | Some l \<Rightarrow> if l \<noteq> [] then l else failure_dict ''Unknown error'')
         in (Inr (dict_set ''attempts'' (PInt (int attempts)) last'), [], n)))"
  by pat_completeness auto
termination
  by (relation "measure (\<lambda>(v, env, item, retries, b, attempts, last_result, n).
                  nat (retries + 1 - int attempts))") auto

definition dial_with_retries ::
  "variant \<Rightarrow> (nat \<Rightarrow> reply) \<Rightarrow> pydict \<Rightarrow> int \<Rightarrow> real \<Rightarrow> nat
   \<Rightarrow> (exn + pydict) \<times> event list \<times> nat" where
  "dial_with_retries v env item retries backoff_seconds n =
     retry_loop v env item retries backoff_seconds 0 None n"




text \<open>What the claims read off a run: the log of \<open>dial_once\<close> and the sleeps.\<close>

fun dial_log :: "event list \<Rightarrow> (exn + pydict) list" where
  "dial_log [] = []"
| "dial_log (Dial r # evs) = r # dial_log evs"
| "dial_log (e # evs) = dial_log evs"

fun net_calls :: "event list \<Rightarrow> nat" where
  "net_calls [] = 0"
| "net_calls (Net p a b c # evs) = Suc (net_calls evs)"
| "net_calls (e # evs) = net_calls evs"

fun backoffs :: "event list \<Rightarrow> real list" where
  "backoffs [] = []"
| "backoffs (Backoff d # evs) = d # backoffs evs"
| "backoffs (e # evs) = backoffs evs"


fun succeeded :: "exn + pydict \<Rightarrow> bool" where
  "succeeded (Inr r) = truthy (get r ''ok'')"
| "succeeded (Inl e) = False"

text \<open>An item on which \<open>dial_once\<close> gets past its first line.\<close>

definition provider_is_text :: "pydict \<Rightarrow> bool" where
  "provider_is_text item =
     (case py_or (get item ''provider'') (PStr ''twilio'') of PStr s \<Rightarrow> True | _ \<Rightarrow> False)"

section \<open>The SMS run over the worksheet (sms_blast.py)\<close>

text \<open>
  \<open>rows_to_send\<close>: the rows of the sheet are lists of cell texts, \<open>idx_status\<close> is the
  position of the Status column or \<open>None\<close>. The loop runs over \<open>values[1:]\<close> with the row
  number starting at 2.
\<close>

definition status_of :: "string list \<Rightarrow> nat option \<Rightarrow> string" where
  "status_of row idx_status =
     str_upper (str_strip (case idx_status of
                             None \<Rightarrow> []
                           | Some j \<Rightarrow> if j < length row then row ! j else []))"

definition blank :: "string list \<Rightarrow> bool" where
  "blank row = (\<not> list_ex (\<lambda>cell. str_strip cell \<noteq> []) row)"

fun rows_loop :: "nat \<Rightarrow> string list list \<Rightarrow> nat option \<Rightarrow> (nat \<times> string list) list" where
  "rows_loop i [] idx_status = []"
| "rows_loop i (row # rest) idx_status =
     (if status_of row idx_status = ''SENT'' then rows_loop (i + 1) rest idx_status
      else if blank row then rows_loop (i + 1) rest idx_status
      else (i, row) # rows_loop (i + 1) rest idx_status)"

definition rows_to_send :: "string list list \<Rightarrow> nat option \<Rightarrow> (nat \<times> string list) list" where
  "rows_to_send vals idx_status = rows_loop 2 (tl vals) idx_status"

definition safe_get :: "string list \<Rightarrow> nat option \<Rightarrow> string" where
  "safe_get row idx =
     str_strip (case idx of None \<Rightarrow> [] | Some j \<Rightarrow> if j < length row then row ! j else [])"

text \<open>The slice \<open>xs[:k]\<close>; a negative \<open>k\<close> counts from the end.\<close>

definition slice_to :: "'a list \<Rightarrow> int \<Rightarrow> 'a list" where
  "slice_to xs k = (if 0 \<le> k then take (nat k) xs else take (length xs - nat (- k)) xs)"

text \<open>
  Twilio, the clock and the worksheet are outside the repository: the \<open>k\<close>-th call of
  \<open>messages.create\<close> returns a message with a sid, raises a \<open>TwilioException\<close> or raises
  something else; the \<open>k\<close>-th reading of the clock gives a text; the \<open>k\<close>-th
  \<open>batch_update\<close> succeeds or raises.
\<close>

datatype sms_reply =
    Created string
  | TwilioException string
  | OtherException string string

record sheet_env =
  sms_reply_of :: "nat \<Rightarrow> sms_reply"
  clock_of :: "nat \<Rightarrow> string"
  store_error_of :: "nat \<Rightarrow> (string \<times> string) option"

record sheet_state =
  sms_calls :: nat
  clock_reads :: nat
  store_calls :: nat

text \<open>
  One entry of \<open>updates\<close>: the range runs from the Status cell to the Error cell of the
  row (the A1 text of gspread is kept as the two coordinates), with one line of values.
\<close>

record update =
  range_from :: "nat \<times> nat"
  range_to :: "nat \<times> nat"
  cells :: "string list"

datatype sheet_event =
    Create string string
  | Sleep real
  | BatchUpdate "update list"

record config =
  dry_run :: bool
  idx_number :: "nat option"
  idx_message :: "nat option"
  col_status :: nat
  col_error :: nat

definition now_iso :: "sheet_env \<Rightarrow> sheet_state \<Rightarrow> string \<times> sheet_state" where
  "now_iso env st = (clock_of env (clock_reads st), st\<lparr>clock_reads := Suc (clock_reads st)\<rparr>)"

definition mk_update :: "config \<Rightarrow> nat \<Rightarrow> string list \<Rightarrow> update" where
  "mk_update cfg row_number line =
     \<lparr>range_from = (row_number, col_status cfg), range_to = (row_number, col_error cfg),
      cells = line\<rparr>"

definition pitch :: string where
  "pitch = [CHR 0x0A, CHR 0x0A]
     @ ''I recently just finished an AI phone agent that turns incoming calls into booked appointments automatically.''
     @ [CHR 0x0A, CHR 0x0A]
     @ ''I'' @ [CHR 0x27] @ ''m looking to set up a few businesses for essentially free while I set up testimonials.''
     @ [CHR 0x0A, CHR 0x0A]
     @ ''Would you be open to hearing more? I can also send you a demo call with a phone agent.''"

text \<open>
  The loop \<open>for attempt in range(3)\<close> around \<open>messages.create\<close>, over the attempts still
  to make, with the loop variables \<open>sid\<close> and \<open>error\<close>.
\<close>

fun send_attempts ::
  "sheet_env \<Rightarrow> string \<Rightarrow> string \<Rightarrow> nat list \<Rightarrow> string \<Rightarrow> string \<Rightarrow> sheet_state
   \<Rightarrow> (exn + string \<times> string) \<times> sheet_event list \<times> sheet_state" where
  "send_attempts env number body [] sid error st = (Inr (sid, error), [], st)"
| "send_attempts env number body (attempt # rest) sid error st =
     (let st' = st\<lparr>sms_calls := Suc (sms_calls st)\<rparr> in
      case sms_reply_of env (sms_calls st) of
        Created s \<Rightarrow> (Inr (s, error), [Create number body], st')
      | OtherException tname msg \<Rightarrow> (Inl (Uncaught tname msg), [Create number body], st')
      | TwilioException msg \<Rightarrow>
          (case send_attempts env number body rest sid msg st' of
             (r, evs, st'') \<Rightarrow> (r, [Create number body, Sleep (2 ^ attempt)] @ evs, st'')))"

text \<open>The loop \<open>for row_number, row in to_send\<close>; \<open>updates\<close> is returned in order.\<close>

fun send_rows ::
  "sheet_env \<Rightarrow> config \<Rightarrow> (nat \<times> string list) list \<Rightarrow> sheet_state
   \<Rightarrow> (exn + update list) \<times> sheet_event list \<times> sheet_state" where
  "send_rows env cfg [] st = (Inr [], [], st)"
| "send_rows env cfg ((row_number, row) # rest) st =
     (let number = safe_get row (idx_number cfg);
          message = safe_get row (idx_message cfg)
      in if number = [] \<or> message = [] then
           (case now_iso env st of
              (t, st1) \<Rightarrow>
                (case send_rows env cfg rest st1 of
                   (Inl e, evs, st2) \<Rightarrow> (Inl e, evs, st2)
                 | (Inr us, evs, st2) \<Rightarrow>
                     (Inr (mk_update cfg row_number
                             [''FAILED'', t, [], ''Missing Number or Message''] # us),
                      evs, st2)))
         else if dry_run cfg then
           (case now_iso env st of
              (t, st1) \<Rightarrow>
                (case send_rows env cfg rest st1 of
                   (Inl e, evs, st2) \<Rightarrow> (Inl e, evs, st2)
                 | (Inr us, evs, st2) \<Rightarrow>
                     (Inr (mk_update cfg row_number [''SENT'', t, ''DRYRUN'', []] # us),
                      evs, st2)))
         else
           (case send_attempts env number (message @ pitch) [0 ..< 3] [] [] st of
              (Inl e, evs, st1) \<Rightarrow> (Inl e, evs, st1)
            | (Inr (sid, error), evs, st1) \<Rightarrow>
                (case now_iso env st1 of
                   (t, st2) \<Rightarrow>
                     (let u = (if sid \<noteq> [] then mk_update cfg row_number [''SENT'', t, sid, []]
                               else mk_update cfg row_number
                                      [''FAILED'', t, [], take 500 error])
                      in case send_rows env cfg rest st2 of
                           (Inl e, evs', st3) \<Rightarrow> (Inl e, evs @ [Sleep 0.2] @ evs', st3)
                         | (Inr us, evs', st3) \<Rightarrow>
                             (Inr (u # us), evs @ [Sleep 0.2] @ evs', st3)))))"

text \<open>
  \<open>chunk(lst, n)\<close>: the slices \<open>lst[i:i+n]\<close> for \<open>i\<close> in \<open>range(0, len(lst), n)\<close>. A step
  of 0 makes \<open>range\<close> raise, a negative step gives no slice.
\<close>

function chunk_from :: "nat \<Rightarrow> 'a list \<Rightarrow> nat \<Rightarrow> 'a list list" where
  "chunk_from i lst n =
     (if i < length lst \<and> 0 < n then take n (drop i lst) # chunk_from (i + n) lst n else [])"
  by pat_completeness auto
termination
  by (relation "measure (\<lambda>(i, lst, n). length lst - i)") auto

definition chunk :: "'a list \<Rightarrow> int \<Rightarrow> exn + 'a list list" where
  "chunk lst n =
     (if n = 0 then Inl ValueError
      else if n < 0 then Inr []
      else Inr (chunk_from 0 lst (nat n)))"

text \<open>The loop \<open>for group in chunk(updates, 100): ws.batch_update(group)\<close>.\<close>

fun flush_groups ::
  "sheet_env \<Rightarrow> update list list \<Rightarrow> sheet_state \<Rightarrow> (exn + unit) \<times> sheet_event list \<times> sheet_state" where
  "flush_groups env [] st = (Inr (), [], st)"
| "flush_groups env (g # gs) st =
     (let st' = st\<lparr>store_calls := Suc (store_calls st)\<rparr> in
      case store_error_of env (store_calls st) of
        Some (tname, msg) \<Rightarrow> (Inl (Uncaught tname msg), [BatchUpdate g], st')
      | None \<Rightarrow>
          (case flush_groups env gs st' of
             (r, evs, st'') \<Rightarrow> (r, BatchUpdate g # evs, st'')))"

definition flush :: "sheet_env \<Rightarrow> update list \<Rightarrow> sheet_state
   \<Rightarrow> (exn + unit) \<times> sheet_event list \<times> sheet_state" where
  "flush env updates st =
     (case chunk updates 100 of
        Inl e \<Rightarrow> (Inl e, [], st)
      | Inr groups \<Rightarrow> flush_groups env groups st)"

text \<open>
  \<open>main\<close> from the selection of the rows on: \<open>all_values\<close> is the sheet as read after the
  header has its tracking columns. The result is the exit code or the exception that
  leaves \<open>main\<close>.
\<close>

definition main_run ::
  "sheet_env \<Rightarrow> int \<Rightarrow> config \<Rightarrow> string list list \<Rightarrow> nat option \<Rightarrow> sheet_state
   \<Rightarrow> (exn + int) \<times> sheet_event list \<times> sheet_state" where
  "main_run env daily_limit cfg all_values idx_status st =
     (let targets = rows_to_send all_values idx_status in
      if targets = [] then (Inr 0, [], st)
      else
        (let to_send = slice_to targets daily_limit in
         case send_rows env cfg to_send st of
           (Inl e, evs, st1) \<Rightarrow> (Inl e, evs, st1)
         | (Inr updates, evs, st1) \<Rightarrow>
             (case flush env updates st1 of
                (Inl e, evs', st2) \<Rightarrow> (Inl e, evs @ evs', st2)
              | (Inr u, evs', st2) \<Rightarrow> (Inr 0, evs @ evs', st2))))"



text \<open>What the retry loop returns when it runs out: \<open>last or {...}\<close> with \<open>attempts\<close> set.\<close>

definition closing :: "nat \<Rightarrow> pydict option \<Rightarrow> pydict" where
  "closing a lst = dict_set ''attempts'' (PInt (int a))
      (case lst of None \<Rightarrow> failure_dict ''Unknown error''
       | Some l \<Rightarrow> if l \<noteq> [] then l else failure_dict ''Unknown error'')"

text \<open>A successful attempt, if there is one, is the last thing a run does.\<close>

definition success_last :: "event list \<Rightarrow> bool" where
  "success_last evs =
     (\<forall>i out. i < length evs \<and> evs ! i = Dial out \<and> succeeded out \<longrightarrow> Suc i = length evs)"

section \<open>Properties of the call service\<close>

declare retry_loop.simps [simp del]

lemma dial_log_append: "dial_log (xs @ ys) = dial_log xs @ dial_log ys"
  by (induction xs rule: dial_log.induct) simp_all

lemma net_calls_append: "net_calls (xs @ ys) = net_calls xs + net_calls ys"
  by (induction xs rule: net_calls.induct) simp_all

lemma backoffs_append: "backoffs (xs @ ys) = backoffs xs @ backoffs ys"
  by (induction xs rule: backoffs.induct) simp_all


lemma get_dict_set_same: "get (dict_set k v d) k = v"
  by (induction d) (auto simp: get_def get_default_def)

lemma get_dict_set_other: "k \<noteq> k' \<Longrightarrow> get (dict_set k v d) k' = get d k'"
  by (induction d) (auto simp: get_def get_default_def)

lemma dial_once_shape:
  assumes "dial_once v env item n = (r, evs, n')"
  shows "(evs = [Dial r] \<and> n' = n) \<or> (\<exists>p a b c. evs = [Net p a b c, Dial r] \<and> n' = Suc n)"
  using assms
  by (auto simp: dial_once_def Let_def split: sum.splits if_splits)

lemma dial_once_returns:
  assumes "provider_is_text item"
  shows "\<exists>res. fst (dial_once v env item n) = Inr res"
  using assms
  by (auto simp: dial_once_def provider_is_text_def Let_def split: sum.splits pyval.splits)

lemma retry_loop_exit:
  "\<not> int a \<le> retries \<Longrightarrow> retry_loop v env item retries b a lst n = (Inr (closing a lst), [], n)"
  by (subst retry_loop.simps) (simp add: closing_def)

lemma retry_loop_raised:
  "int a \<le> retries \<Longrightarrow> dial_once v env item n = (Inl e, evs, n')
   \<Longrightarrow> retry_loop v env item retries b a lst n = (Inl e, evs, n')"
  by (subst retry_loop.simps) simp

lemma retry_loop_success:
  "int a \<le> retries \<Longrightarrow> dial_once v env item n = (Inr res, evs, n') \<Longrightarrow> truthy (get res ''ok'')
   \<Longrightarrow> retry_loop v env item retries b a lst n
       = (Inr (dict_set ''attempts'' (PInt (int (Suc a))) res), evs, n')"
  by (subst retry_loop.simps) simp

lemma retry_loop_sleep_raised:
  "int a \<le> retries \<Longrightarrow> dial_once v env item n = (Inr res, evs, n') \<Longrightarrow> \<not> truthy (get res ''ok'')
   \<Longrightarrow> b * real (Suc a) < 0
   \<Longrightarrow> retry_loop v env item retries b a lst n = (Inl ValueError, evs, n')"
  by (subst retry_loop.simps) (auto simp: py_sleep_def Let_def min_def)

lemma retry_loop_retry:
  "int a \<le> retries \<Longrightarrow> dial_once v env item n = (Inr res, evs, n') \<Longrightarrow> \<not> truthy (get res ''ok'')
   \<Longrightarrow> \<not> b * real (Suc a) < 0
   \<Longrightarrow> retry_loop v env item retries b (Suc a) (Some res) n' = (r, evs', n'')
   \<Longrightarrow> retry_loop v env item retries b a lst n
       = (r, evs @ Backoff (min (b * real (Suc a)) 6) # evs', n'')"
  by (subst retry_loop.simps) (auto simp: py_sleep_def Let_def min_def)

lemma retry_loop_cases [consumes 1, case_names exit raised success sleep_raised retry]:
  assumes run: "retry_loop v env item retries b a lst n = (r, evs, n')"
    and exit: "\<And>a lst n. \<not> int a \<le> retries \<Longrightarrow> P a lst n (Inr (closing a lst)) [] n"
    and raised: "\<And>a lst n e evs n'. int a \<le> retries \<Longrightarrow> dial_once v env item n = (Inl e, evs, n')
                  \<Longrightarrow> P a lst n (Inl e) evs n'"
    and success: "\<And>a lst n res evs n'. int a \<le> retries \<Longrightarrow> dial_once v env item n = (Inr res, evs, n')
                  \<Longrightarrow> truthy (get res ''ok'')
                  \<Longrightarrow> P a lst n (Inr (dict_set ''attempts'' (PInt (int (Suc a))) res)) evs n'"
    and sleep_raised: "\<And>a lst n res evs n'. int a \<le> retries
                  \<Longrightarrow> dial_once v env item n = (Inr res, evs, n')
                  \<Longrightarrow> \<not> truthy (get res ''ok'') \<Longrightarrow> b * real (Suc a) < 0
                  \<Longrightarrow> P a lst n (Inl ValueError) evs n'"
    and retry: "\<And>a lst n res evs n' r evs' n''. int a \<le> retries
                  \<Longrightarrow> dial_once v env item n = (Inr res, evs, n')
                  \<Longrightarrow> \<not> truthy (get res ''ok'') \<Longrightarrow> \<not> b * real (Suc a) < 0
                  \<Longrightarrow> retry_loop v env item retries b (Suc a) (Some res) n' = (r, evs', n'')
                  \<Longrightarrow> P (Suc a) (Some res) n' r evs' n''
                  \<Longrightarrow> P a lst n r (evs @ Backoff (min (b * real (Suc a)) 6) # evs') n''"
  shows "P a lst n r evs n'"
  using run
proof (induction "nat (retries + 1 - int a)" arbitrary: a lst n r evs n')
  case 0
  then have "\<not> int a \<le> retries" by linarith
  with 0 exit [of a lst n] show ?case by (auto simp: retry_loop_exit)
next
  case (Suc k)
  then have le: "int a \<le> retries" by linarith
  obtain r1 evs1 n1 where d: "dial_once v env item n = (r1, evs1, n1)"
    by (cases "dial_once v env item n") auto
  show ?case
  proof (cases r1)
    case (Inl e)
    from retry_loop_raised [OF le d [unfolded Inl]] Suc.prems
    have "r = Inl e" "evs = evs1" "n' = n1" by simp_all
    with raised [OF le d [unfolded Inl]] show ?thesis by simp
  next
    case (Inr res)
    show ?thesis
    proof (cases "truthy (get res ''ok'')")
      case True
      from retry_loop_success [OF le d [unfolded Inr] True] Suc.prems
      have "r = Inr (dict_set ''attempts'' (PInt (int (Suc a))) res)" "evs = evs1" "n' = n1"
        by simp_all
      with success [OF le d [unfolded Inr] True] show ?thesis by simp
    next
      case False
      show ?thesis
      proof (cases "b * real (Suc a) < 0")
        case True
        from retry_loop_sleep_raised [OF le d [unfolded Inr] False True] Suc.prems
        have "r = Inl ValueError" "evs = evs1" "n' = n1" by simp_all
        with sleep_raised [OF le d [unfolded Inr] False True] show ?thesis by simp
      next
        case neg: False
        obtain r2 evs2 n2 where
          rec: "retry_loop v env item retries b (Suc a) (Some res) n1 = (r2, evs2, n2)"
          by (cases "retry_loop v env item retries b (Suc a) (Some res) n1") auto
        have k: "k = nat (retries + 1 - int (Suc a))" using Suc.hyps(2) by linarith
        have ih: "P (Suc a) (Some res) n1 r2 evs2 n2"
          using Suc.hyps(1) [OF k rec] .
        from retry_loop_retry [OF le d [unfolded Inr] False neg rec] Suc.prems
        have "r = r2" "evs = evs1 @ Backoff (min (b * real (Suc a)) 6) # evs2" "n' = n2"
          by simp_all
        with retry [OF le d [unfolded Inr] False neg rec ih] show ?thesis by simp
      qed
    qed
  qed
qed

lemma retry_loop_dial_count:
  assumes "retry_loop v env item retries b a lst n = (r, evs, n')"
  shows "length (dial_log evs) \<le> nat (retries + 1 - int a)"
  using assms
proof (induction rule: retry_loop_cases)
  case (retry a lst n res evs n' r evs' n'')
  from dial_once_shape [OF retry(2)] have "length (dial_log evs) = 1" by auto
  with retry show ?case by (simp add: dial_log_append)
qed (auto dest!: dial_once_shape)

lemma retry_loop_dials_nonempty:
  assumes "retry_loop v env item retries b a lst n = (r, evs, n')" "int a \<le> retries"
  shows "dial_log evs \<noteq> []"
  using assms
  by (induction rule: retry_loop_cases) (auto dest!: dial_once_shape simp: dial_log_append)

lemma retry_loop_attempts:
  assumes "retry_loop v env item retries b a lst n = (r, evs, n')" "r = Inr res"
  shows "get res ''attempts'' = PInt (int (a + length (dial_log evs)))"
  using assms
proof (induction rule: retry_loop_cases)
  case (retry a lst n res' evs n' r evs' n'')
  from dial_once_shape [OF retry(2)] have "length (dial_log evs) = 1" by auto
  with retry show ?case by (simp add: dial_log_append)
qed (auto dest!: dial_once_shape simp: get_dict_set_same closing_def)

lemma success_last_Cons:
  assumes "\<And>out. e = Dial out \<Longrightarrow> \<not> succeeded out" "success_last evs"
  shows "success_last (e # evs)"
  unfolding success_last_def
proof (intro allI impI)
  fix i out
  assume h: "i < length (e # evs) \<and> (e # evs) ! i = Dial out \<and> succeeded out"
  show "Suc i = length (e # evs)"
  proof (cases i)
    case 0
    with h assms(1) show ?thesis by auto
  next
    case (Suc j)
    with h have "j < length evs \<and> evs ! j = Dial out \<and> succeeded out" by simp
    with assms(2) have "Suc j = length evs" unfolding success_last_def by blast
    with Suc show ?thesis by simp
  qed
qed

lemma success_last_failed_dial:
  "\<not> truthy (get res ''ok'') \<Longrightarrow> success_last evs \<Longrightarrow> success_last (Dial (Inr res) # evs)"
  by (rule success_last_Cons) auto

lemma success_last_Backoff: "success_last evs \<Longrightarrow> success_last (Backoff d # evs)"
  by (rule success_last_Cons) auto

lemma success_last_Net: "success_last evs \<Longrightarrow> success_last (Net p x y z # evs)"
  by (rule success_last_Cons) auto

lemma success_last_single: "success_last [e]"
  by (simp add: success_last_def)

lemma success_last_Nil: "success_last []"
  by (simp add: success_last_def)

lemma retry_loop_stops:
  assumes "retry_loop v env item retries b a lst n = (r, evs, n')"
  shows "success_last evs"
  using assms
proof (induction rule: retry_loop_cases)
  case (retry a lst n res evs n' r evs' n'')
  have bk: "success_last (Backoff (min (b * real (Suc a)) 6) # evs')"
    using retry(6) by (rule success_last_Backoff)
  have dl: "success_last (Dial (Inr res) # Backoff (min (b * real (Suc a)) 6) # evs')"
    using retry(3) bk by (rule success_last_failed_dial)
  from dial_once_shape [OF retry(2)] show ?case
  proof (elim disjE exE conjE)
    assume "evs = [Dial (Inr res)]"
    with dl show ?thesis by simp
  next
    fix p x y z assume "evs = [Net p x y z, Dial (Inr res)]"
    moreover have "success_last (Net p x y z # Dial (Inr res) # Backoff (min (b * real (Suc a)) 6) # evs')"
      using dl by (rule success_last_Net)
    ultimately show ?thesis by simp
  qed
next
  case (exit a lst n)
  show ?case by (rule success_last_Nil)
next
  case (raised a lst n e evs n')
  from dial_once_shape [OF raised(2)] show ?case
    by (auto intro!: success_last_Net success_last_single)
next
  case (success a lst n res evs n')
  from dial_once_shape [OF success(2)] show ?case
    by (auto intro!: success_last_Net success_last_single)
next
  case (sleep_raised a lst n res evs n')
  from dial_once_shape [OF sleep_raised(2)] show ?case
    by (auto intro!: success_last_Net success_last_single)
qed

lemma retry_loop_returns:
  assumes "retry_loop v env item retries b a lst n = (r, evs, n')"
    "provider_is_text item" "0 \<le> b"
  shows "\<exists>res. r = Inr res"
  using assms
proof (induction rule: retry_loop_cases)
  case (raised a lst n e evs n')
  with dial_once_returns [of item v env n] show ?case by simp
next
  case (sleep_raised a lst n res evs n')
  then have "b * real (Suc a) < 0" by simp
  moreover have "0 \<le> b * real (Suc a)" using \<open>0 \<le> b\<close> by simp
  ultimately show ?case by simp
qed auto

lemma retry_loop_backoffs:
  assumes "retry_loop v env item retries b a lst n = (r, evs, n')"
  shows "backoffs evs = map (\<lambda>k. min (b * real k) 6) [Suc a ..< Suc a + length (backoffs evs)]"
  using assms
proof (induction rule: retry_loop_cases)
  case (retry a lst n res evs n' r evs' n'')
  from dial_once_shape [OF retry(2)] have e: "backoffs evs = []" by auto
  define m where "m = length (backoffs evs')"
  have u: "[Suc a ..< Suc (Suc a + m)] = Suc a # [Suc (Suc a) ..< Suc (Suc a) + m]"
    by (subst upt_conv_Cons) simp_all
  have "backoffs (evs @ Backoff (min (b * real (Suc a)) 6) # evs')
        = min (b * real (Suc a)) 6 # backoffs evs'"
    using e by (simp add: backoffs_append)
  also have "backoffs evs' = map (\<lambda>k. min (b * real k) 6) [Suc (Suc a) ..< Suc (Suc a) + m]"
    using retry(6) unfolding m_def .
  finally show ?case using u by (simp add: m_def [symmetric] del: upt_Suc)
qed (auto dest!: dial_once_shape)

lemma retry_loop_net:
  assumes "retry_loop v env item retries b a lst n = (r, evs, n')"
  shows "n' = n + net_calls evs"
  using assms
  by (induction rule: retry_loop_cases) (auto dest!: dial_once_shape simp: net_calls_append)

subsection \<open>Attempts of the retry wrapper\<close>

text \<open>
  C1: for every item and every \<open>retries \<ge> 0\<close>, \<open>dial_with_retries\<close> invokes \<open>dial_once\<close> at
  most \<open>retries + 1\<close> times; a successful invocation is the last event of the run, so
  nothing is issued after it; and a returned result carries in \<open>attempts\<close> the number of
  invocations made, which is at least 1. A result is returned whenever the provider
  field is text (or falsy) and the backoff base is not negative.
\<close>

theorem dial_with_retries_attempts:
  assumes "0 \<le> retries"
    and "dial_with_retries v env item retries backoff_seconds n = (r, evs, n')"
  shows "length (dial_log evs) \<le> nat retries + 1
       \<and> (\<forall>i out. i < length evs \<and> evs ! i = Dial out \<and> succeeded out \<longrightarrow> Suc i = length evs)
       \<and> (\<forall>res. r = Inr res \<longrightarrow>
             get res ''attempts'' = PInt (int (length (dial_log evs)))
             \<and> 1 \<le> length (dial_log evs))
       \<and> (provider_is_text item \<and> 0 \<le> backoff_seconds \<longrightarrow> (\<exists>res. r = Inr res))"
proof -
  from assms(2) have run: "retry_loop v env item retries backoff_seconds 0 None n = (r, evs, n')"
    by (simp add: dial_with_retries_def)
  have "length (dial_log evs) \<le> nat retries + 1"
    using retry_loop_dial_count [OF run] assms(1) by simp
  moreover have "\<forall>i out. i < length evs \<and> evs ! i = Dial out \<and> succeeded out \<longrightarrow> Suc i = length evs"
    using retry_loop_stops [OF run] by (simp add: success_last_def)
  moreover have "dial_log evs \<noteq> []"
    using retry_loop_dials_nonempty [OF run] assms(1) by simp
  then have "1 \<le> length (dial_log evs)"
    by (cases "dial_log evs") simp_all
  moreover have "\<forall>res. r = Inr res \<longrightarrow> get res ''attempts'' = PInt (int (length (dial_log evs)))"
    using retry_loop_attempts [OF run] by simp
  moreover have "provider_is_text item \<and> 0 \<le> backoff_seconds \<longrightarrow> (\<exists>res. r = Inr res)"
    using retry_loop_returns [OF run] by blast
  ultimately show ?thesis by blast
qed

theorem dial_with_retries_attempts_witness:
  "(0::int) \<le> 2
   \<and> dial_with_retries ElevenBatch
        (\<lambda>k. if k < 2 then Raised ''TimeoutError'' ''timed out''
              else Replied (PStr ''conv-1'') (PStr ''CA1'') (PDict []))
        [(''to_number'', PStr ''+15551234567''), (''agent_id'', PStr ''agent''),
         (''agent_phone_number_id'', PStr ''phone'')] 2 2 0
     = (Inr [(''ok'', PBool True), (''provider'', PStr ''twilio''),
             (''conversation_id'', PStr ''conv-1''), (''callSid'', PStr ''CA1''),
             (''attempts'', PInt 3)],
        [Net ''twilio'' (PStr ''agent'') (PStr ''phone'') (PStr ''+15551234567''),
         Dial (Inr [(''ok'', PBool False), (''error'', PStr ''TimeoutError: timed out'')]),
         Backoff 2,
         Net ''twilio'' (PStr ''agent'') (PStr ''phone'') (PStr ''+15551234567''),
         Dial (Inr [(''ok'', PBool False), (''error'', PStr ''TimeoutError: timed out'')]),
         Backoff 4,
         Net ''twilio'' (PStr ''agent'') (PStr ''phone'') (PStr ''+15551234567''),
         Dial (Inr [(''ok'', PBool True), (''provider'', PStr ''twilio''),
                    (''conversation_id'', PStr ''conv-1''), (''callSid'', PStr ''CA1'')])],
        3)
   \<and> get [(''ok'', PBool True), (''provider'', PStr ''twilio''),
           (''conversation_id'', PStr ''conv-1''), (''callSid'', PStr ''CA1''),
           (''attempts'', PInt 3)] ''attempts'' = PInt 3"
proof -
  let ?env = "\<lambda>k::nat. if k < 2 then Raised ''TimeoutError'' ''timed out''
              else Replied (PStr ''conv-1'') (PStr ''CA1'') (PDict [])"
  let ?item = "[(''to_number'', PStr ''+15551234567''), (''agent_id'', PStr ''agent''),
         (''agent_phone_number_id'', PStr ''phone'')]"
  let ?res = "[(''ok'', PBool True), (''provider'', PStr ''twilio''),
             (''conversation_id'', PStr ''conv-1''), (''callSid'', PStr ''CA1''),
             (''attempts'', PInt 3)]"
  let ?evs = "[Net ''twilio'' (PStr ''agent'') (PStr ''phone'') (PStr ''+15551234567''),
         Dial (Inr [(''ok'', PBool False), (''error'', PStr ''TimeoutError: timed out'')]),
         Backoff 2,
         Net ''twilio'' (PStr ''agent'') (PStr ''phone'') (PStr ''+15551234567''),
         Dial (Inr [(''ok'', PBool False), (''error'', PStr ''TimeoutError: timed out'')]),
         Backoff 4,
         Net ''twilio'' (PStr ''agent'') (PStr ''phone'') (PStr ''+15551234567''),
         Dial (Inr [(''ok'', PBool True), (''provider'', PStr ''twilio''),
                    (''conversation_id'', PStr ''conv-1''), (''callSid'', PStr ''CA1'')])]"
  have h: "(0::int) \<le> 2" by simp
  have run: "dial_with_retries ElevenBatch ?env ?item 2 2 0 = (Inr ?res, ?evs, 3)"
    by code_simp
  from dial_with_retries_attempts [OF h run]
  have "get ?res ''attempts'' = PInt (int (length (dial_log ?evs)))" by blast
  then have "get ?res ''attempts'' = PInt 3" by simp
  with h run show ?thesis by blast
qed

text \<open>
  C10: with \<open>retries < 0\<close> the loop body never runs: no attempt, no sleep, and the result
  is \<open>{ok: False, error: "Unknown error", attempts: 0}\<close>.
\<close>

theorem dial_with_retries_negative:
  assumes "retries < 0"
  shows "dial_with_retries v env item retries backoff_seconds n
         = (Inr [(''ok'', PBool False), (''error'', PStr ''Unknown error''),
                 (''attempts'', PInt 0)], [], n)"
  using assms
  by (simp add: dial_with_retries_def retry_loop_exit closing_def failure_dict_def)

theorem dial_with_retries_negative_witness:
  "(- 1 :: int) < 0
   \<and> dial_with_retries App (\<lambda>k. Replied (PStr ''conv-1'') (PStr ''CA1'') (PDict []))
        [(''to_number'', PStr ''+15551234567''), (''agent_id'', PStr ''agent''),
         (''agent_phone_number_id'', PStr ''phone'')] (- 1) 2 0
     = (Inr [(''ok'', PBool False), (''error'', PStr ''Unknown error''),
             (''attempts'', PInt 0)], [], 0)"
proof -
  have h: "(- 1 :: int) < 0" by simp
  from dial_with_retries_negative [OF h] h show ?thesis by blast
qed

subsection \<open>Validation in a single attempt\<close>



subsection \<open>The batch loop\<close>











subsection \<open>What the wrapper returns and when it sleeps\<close>

lemma dial_once_result_nonempty:
  "dial_once v env item n = (Inr res, evs, n') \<Longrightarrow> res \<noteq> []"
  by (auto simp: dial_once_def Let_def failure_dict_def success_dict_def
           split: sum.splits if_splits reply.splits)

lemma dial_once_catches:
  assumes "provider_is_text item" "\<forall>k \<in> set required. truthy (get item k)"
    "env n = Raised tname msg"
  shows "fst (dial_once v env item n) = Inr (failure_dict (tname @ '': '' @ msg))"
proof -
  from assms(2) have "filter (\<lambda>k. \<not> truthy (get item k)) required = []"
    by (simp add: filter_empty_conv)
  with assms(1,3) show ?thesis
    by (auto simp: dial_once_def provider_is_text_def Let_def split: sum.splits pyval.splits)
qed

lemma retry_loop_returns_last:
  assumes "retry_loop v env item retries b a lst n = (r, evs, n')" "r = Inr res"
    "int a \<le> retries"
  shows "\<exists>d. last (dial_log evs) = Inr d
           \<and> res = dict_set ''attempts'' (PInt (int (a + length (dial_log evs)))) d"
  using assms
proof (induction rule: retry_loop_cases)
  case (retry a lst n res1 evs n' r evs' n'')
  from dial_once_shape [OF retry(2)] have dl: "dial_log evs = [Inr res1]" by auto
  show ?case
  proof (cases "int (Suc a) \<le> retries")
    case True
    from retry_loop_dials_nonempty [OF retry(5) True] have ne: "dial_log evs' \<noteq> []" .
    from retry(6) [OF retry(7) True] obtain d where
      "last (dial_log evs') = Inr d"
      "res = dict_set ''attempts'' (PInt (int (Suc a + length (dial_log evs')))) d"
      by blast
    with dl ne show ?thesis by (simp add: dial_log_append)
  next
    case False
    from retry(5) retry_loop_exit [OF False, of v env item b "Some res1" n']
    have "r = Inr (closing (Suc a) (Some res1))" "evs' = []" by simp_all
    with retry(7) dial_once_result_nonempty [OF retry(2)] dl show ?thesis
      by (simp add: closing_def dial_log_append)
  qed
qed (auto dest!: dial_once_shape simp: add.commute)

lemma retry_loop_failure_ends_sleeping:
  assumes "retry_loop v env item retries b a lst n = (r, evs, n')" "r = Inr res"
    "\<not> truthy (get res ''ok'')" "int a \<le> retries"
  shows "evs \<noteq> [] \<and> (\<exists>d. last evs = Backoff d)"
  using assms
proof (induction rule: retry_loop_cases)
  case (retry a lst n res1 evs n' r evs' n'')
  show ?case
  proof (cases "int (Suc a) \<le> retries")
    case True
    from retry(6) [OF retry(7,8) True] show ?thesis by simp
  next
    case False
    from retry(5) retry_loop_exit [OF False, of v env item b "Some res1" n']
    have "evs' = []" by simp
    then show ?thesis by simp
  qed
next
  case (success a lst n res1 evs n')
  have "get (dict_set ''attempts'' (PInt (int (Suc a))) res1) ''ok'' = get res1 ''ok''"
    by (rule get_dict_set_other) simp
  with success show ?case by auto
qed auto

lemma retry_loop_starts_with_attempt:
  assumes "retry_loop v env item retries b a lst n = (r, evs, n')"
  shows "backoffs (take 1 evs) = []"
  using assms
  by (induction rule: retry_loop_cases) (auto dest!: dial_once_shape)

subsection \<open>Backoff\<close>

text \<open>
  C2: the claim says that no delay follows the final attempt. With \<open>retries = 0\<close> and a
  provider call that raises, the run makes its single attempt and then sleeps
  \<open>min(2.0 * 1, 6.0) = 2\<close> seconds before it returns.
\<close>

theorem dial_with_retries_sleeps_after_last_attempt:
  "dial_with_retries ElevenBatch (\<lambda>k. Raised ''TimeoutError'' ''timed out'')
     [(''to_number'', PStr ''+15551234567''), (''agent_id'', PStr ''agent''),
      (''agent_phone_number_id'', PStr ''phone'')] 0 2 0
   = (Inr [(''ok'', PBool False), (''error'', PStr ''TimeoutError: timed out''),
           (''attempts'', PInt 1)],
      [Net ''twilio'' (PStr ''agent'') (PStr ''phone'') (PStr ''+15551234567''),
       Dial (Inr [(''ok'', PBool False), (''error'', PStr ''TimeoutError: timed out'')]),
       Backoff 2],
      1)"
  by code_simp

subsection \<open>Exceptions of a single attempt\<close>

text \<open>
  C8: the claim says that \<open>dial_once\<close> never raises. An item whose \<open>provider\<close> is the
  number 5 makes the first line, \<open>(payload.get("provider") or "twilio").lower()\<close>, raise
  \<open>AttributeError\<close> outside the \<open>try\<close>; the exception also leaves
  \<open>dial_with_retries\<close>.
\<close>

theorem dial_once_raises_on_provider:
  "dial_once ElevenBatch (\<lambda>k. Replied (PStr ''conv-1'') (PStr ''CA1'') (PDict []))
     [(''provider'', PInt 5), (''to_number'', PStr ''+15551234567''),
      (''agent_id'', PStr ''agent''), (''agent_phone_number_id'', PStr ''phone'')] 0
   = (Inl AttributeError, [Dial (Inl AttributeError)], 0)
   \<and> dial_with_retries ElevenBatch (\<lambda>k. Replied (PStr ''conv-1'') (PStr ''CA1'') (PDict []))
     [(''provider'', PInt 5), (''to_number'', PStr ''+15551234567''),
      (''agent_id'', PStr ''agent''), (''agent_phone_number_id'', PStr ''phone'')] 2 2 0
   = (Inl AttributeError, [Dial (Inl AttributeError)], 0)"
  by code_simp

section \<open>Properties of the SMS run\<close>

subsection \<open>Selection of the pending rows\<close>

lemma upt_shift: "[k ..< k + Suc m] = k # [Suc k ..< Suc k + m]"
  by (subst upt_conv_Cons) simp_all

lemma rows_loop_filter:
  "rows_loop k rows idx
   = filter (\<lambda>(i, row). status_of row idx \<noteq> ''SENT'' \<and> \<not> blank row)
       (zip [k ..< k + length rows] rows)"
proof (induction rows arbitrary: k)
  case Nil
  show ?case by simp
next
  case (Cons row rest)
  have u: "[k ..< k + length (row # rest)] = k # [Suc k ..< Suc k + length rest]"
    using upt_shift [of k "length rest"] by simp
  show ?case unfolding u using Cons.IH [of "Suc k"] by simp
qed

lemma rows_loop_mem:
  "(i, row) \<in> set (rows_loop k rows idx)
   \<longleftrightarrow> (k \<le> i \<and> i < k + length rows \<and> row = rows ! (i - k)
        \<and> status_of row idx \<noteq> ''SENT'' \<and> \<not> blank row)"
proof -
  have "(i, row) \<in> set (zip [k ..< k + length rows] rows)
        \<longleftrightarrow> (k \<le> i \<and> i < k + length rows \<and> row = rows ! (i - k))"
  proof
    assume "(i, row) \<in> set (zip [k ..< k + length rows] rows)"
    then show "k \<le> i \<and> i < k + length rows \<and> row = rows ! (i - k)"
      by (auto simp: set_zip)
  next
    assume h: "k \<le> i \<and> i < k + length rows \<and> row = rows ! (i - k)"
    then have "i - k < length rows" "[k ..< k + length rows] ! (i - k) = i" by auto
    with h show "(i, row) \<in> set (zip [k ..< k + length rows] rows)"
      unfolding set_zip by (intro CollectI exI [of _ "i - k"]) simp
  qed
  then show ?thesis by (auto simp: rows_loop_filter)
qed


lemma str_strip_Nil: "str_strip [] = []"
  by (simp add: str_strip_def)




text \<open>
  C5, as amended: a row whose status is \<open>SENT\<close> is not selected, whatever the sheet. (A
  row whose status is \<open>FAILED\<close> is selected again, as the run below shows.)
\<close>

theorem rows_to_send_skips_sent:
  assumes "status_of row idx_status = ''SENT''"
  shows "(i, row) \<notin> set (rows_to_send vals idx_status)"
  using assms by (cases vals) (simp_all add: rows_to_send_def rows_loop_mem)

theorem rows_to_send_skips_sent_witness:
  "status_of [''+15551230004'', ''hi'', '' sent  ''] (Some 2) = ''SENT''
   \<and> (2, [''+15551230004'', ''hi'', '' sent  ''])
       \<notin> set (rows_to_send [[''Number'', ''Message'', ''Status''],
                              [''+15551230004'', ''hi'', '' sent  '']] (Some 2))"
proof -
  have h: "status_of [''+15551230004'', ''hi'', '' sent  ''] (Some 2) = ''SENT''"
    by code_simp
  from rows_to_send_skips_sent [OF h] h show ?thesis by blast
qed

text \<open>A sheet with one row marked \<open>FAILED\<close>: the next run selects it.\<close>

theorem rows_to_send_selects_failed:
  "status_of [''+15551230002'', ''hi'', ''FAILED''] (Some 2) = ''FAILED''
   \<and> rows_to_send [[''Number'', ''Message'', ''Status''],
                    [''+15551230002'', ''hi'', ''FAILED'']] (Some 2)
     = [(2, [''+15551230002'', ''hi'', ''FAILED''])]"
  by code_simp

subsection \<open>Flushing the updates\<close>

declare chunk_from.simps [simp del]

lemma chunk_from_concat: "0 < n \<Longrightarrow> concat (chunk_from i lst n) = drop i lst"
proof (induction i lst n rule: chunk_from.induct)
  case (1 i lst n)
  show ?case
  proof (cases "i < length lst")
    case True
    with 1 have "concat (chunk_from (i + n) lst n) = drop (i + n) lst" by simp
    moreover have "take n (drop i lst) @ drop (i + n) lst = drop i lst"
      by (metis add.commute append_take_drop_id drop_drop)
    ultimately show ?thesis using True 1(2) by (subst chunk_from.simps) simp
  next
    case False
    then show ?thesis by (subst chunk_from.simps) simp
  qed
qed

lemma chunk_from_sizes:
  "g \<in> set (chunk_from i lst n) \<Longrightarrow> g \<noteq> [] \<and> length g \<le> n"
proof (induction i lst n rule: chunk_from.induct)
  case (1 i lst n)
  show ?case
  proof (cases "i < length lst \<and> 0 < n")
    case True
    with 1(2) have "g = take n (drop i lst) \<or> g \<in> set (chunk_from (i + n) lst n)"
      by (subst (asm) chunk_from.simps) simp
    then show ?thesis
    proof
      assume "g = take n (drop i lst)"
      with True show ?thesis by simp
    next
      assume "g \<in> set (chunk_from (i + n) lst n)"
      with 1(1) True show ?thesis by simp
    qed
  next
    case False
    with 1(2) show ?thesis by (subst (asm) chunk_from.simps) simp
  qed
qed

lemma chunk_100:
  "\<exists>groups. chunk updates 100 = Inr groups \<and> concat groups = updates
            \<and> (\<forall>g \<in> set groups. g \<noteq> [] \<and> length g \<le> 100)"
proof -
  have "chunk updates 100 = Inr (chunk_from 0 updates 100)" by (simp add: chunk_def)
  moreover have "concat (chunk_from 0 updates 100) = updates"
    using chunk_from_concat [of 100 0 updates] by simp
  moreover have "\<forall>g \<in> set (chunk_from 0 updates 100). g \<noteq> [] \<and> length g \<le> 100"
    using chunk_from_sizes by blast
  ultimately show ?thesis by blast
qed

lemma flush_groups_prefix:
  assumes "flush_groups env groups st = (r, evs, st')"
  shows "\<exists>k \<le> length groups. evs = map BatchUpdate (take k groups)
          \<and> store_calls st' = store_calls st + k
          \<and> (\<forall>i < k - 1. store_error_of env (store_calls st + i) = None)
          \<and> (r = Inr () \<longrightarrow> k = length groups
                \<and> (\<forall>i < length groups. store_error_of env (store_calls st + i) = None))
          \<and> (\<forall>e. r = Inl e \<longrightarrow> 0 < k
                \<and> (\<exists>tname msg. store_error_of env (store_calls st + (k - 1)) = Some (tname, msg)
                      \<and> e = Uncaught tname msg))"
  using assms
proof (induction groups arbitrary: st r evs st')
  case Nil
  then show ?case by auto
next
  case (Cons g gs)
  let ?st1 = "st\<lparr>store_calls := Suc (store_calls st)\<rparr>"
  show ?case
  proof (cases "store_error_of env (store_calls st)")
    case (Some tm)
    obtain tname msg where tm: "tm = (tname, msg)" by (cases tm)
    with Some Cons.prems have
      "r = Inl (Uncaught tname msg)" "evs = [BatchUpdate g]" "st' = ?st1"
      by (simp_all add: Let_def)
    with Some tm show ?thesis
      by (intro exI [of _ 1]) simp
  next
    case None
    obtain r2 evs2 st2 where rec: "flush_groups env gs ?st1 = (r2, evs2, st2)"
      by (cases "flush_groups env gs ?st1") auto
    with None Cons.prems have eq: "r = r2" "evs = BatchUpdate g # evs2" "st' = st2"
      by (simp_all add: Let_def)
    from Cons.IH [OF rec] obtain k where
      k: "k \<le> length gs" "evs2 = map BatchUpdate (take k gs)"
         "store_calls st2 = store_calls ?st1 + k"
         "\<forall>i < k - 1. store_error_of env (store_calls ?st1 + i) = None"
         "r2 = Inr () \<longrightarrow> k = length gs
            \<and> (\<forall>i < length gs. store_error_of env (store_calls ?st1 + i) = None)"
         "\<forall>e. r2 = Inl e \<longrightarrow> 0 < k
            \<and> (\<exists>tname msg. store_error_of env (store_calls ?st1 + (k - 1)) = Some (tname, msg)
                  \<and> e = Uncaught tname msg)"
      by blast
    have shift: "\<And>m i. (\<forall>i < m. store_error_of env (store_calls ?st1 + i) = None)
                  \<Longrightarrow> i < Suc m \<Longrightarrow> store_error_of env (store_calls st + i) = None"
    proof -
      fix m i
      assume a: "\<forall>i < m. store_error_of env (store_calls ?st1 + i) = None" and i: "i < Suc m"
      show "store_error_of env (store_calls st + i) = None"
      proof (cases i)
        case 0
        with None show ?thesis by simp
      next
        case (Suc j)
        with i a have "store_error_of env (store_calls ?st1 + j) = None" by simp
        with Suc show ?thesis by simp
      qed
    qed
    show ?thesis
    proof (intro exI [of _ "Suc k"] conjI)
      show "Suc k \<le> length (g # gs)" using k(1) by simp
      show "evs = map BatchUpdate (take (Suc k) (g # gs))" using eq k(2) by simp
      show "store_calls st' = store_calls st + Suc k" using eq k(3) by simp
      show "\<forall>i < Suc k - 1. store_error_of env (store_calls st + i) = None"
      proof (intro allI impI)
        fix i assume "i < Suc k - 1"
        then have "i < Suc (k - 1)" by simp
        with shift [OF k(4)] show "store_error_of env (store_calls st + i) = None" by blast
      qed
      show "r = Inr () \<longrightarrow> Suc k = length (g # gs)
              \<and> (\<forall>i < length (g # gs). store_error_of env (store_calls st + i) = None)"
      proof
        assume "r = Inr ()"
        with eq k(5) have kl: "k = length gs"
          and a: "\<forall>i < length gs. store_error_of env (store_calls ?st1 + i) = None"
          by simp_all
        from shift [OF a] kl
        show "Suc k = length (g # gs)
              \<and> (\<forall>i < length (g # gs). store_error_of env (store_calls st + i) = None)"
          by simp
      qed
      show "\<forall>e. r = Inl e \<longrightarrow> 0 < Suc k
              \<and> (\<exists>tname msg. store_error_of env (store_calls st + (Suc k - 1)) = Some (tname, msg)
                    \<and> e = Uncaught tname msg)"
      proof (intro allI impI)
        fix e assume "r = Inl e"
        with eq k(6) obtain tname msg where
          "0 < k" "store_error_of env (store_calls ?st1 + (k - 1)) = Some (tname, msg)"
          "e = Uncaught tname msg"
          by auto
        then show "0 < Suc k
              \<and> (\<exists>tname msg. store_error_of env (store_calls st + (Suc k - 1)) = Some (tname, msg)
                    \<and> e = Uncaught tname msg)"
          by (cases k) auto
      qed
    qed
  qed
qed

lemma chunk_101:
  assumes "length us = 101"
  shows "chunk us 100 = Inr [take 100 us, drop 100 us]"
proof -
  have "chunk_from 200 us 100 = []"
    using assms by (subst chunk_from.simps) simp
  then have "chunk_from 100 us 100 = [drop 100 us]"
    using assms by (subst chunk_from.simps) simp
  then have "chunk_from 0 us 100 = [take 100 us, drop 100 us]"
    using assms by (subst chunk_from.simps) simp
  then show ?thesis by (simp add: chunk_def)
qed

text \<open>
  C9, as amended: the updates of a run are handed to \<open>batch_update\<close> in their order, in
  groups of at least 1 and at most 100 that together are all of them. The groups are
  written one after the other; the first \<open>batch_update\<close> that raises ends the run: its
  exception leaves \<open>flush\<close> as it is and the groups after it are not attempted. When no
  call raises, every group is written.
\<close>

theorem flush_in_chunks:
  assumes "flush env updates st = (r, evs, st')"
  shows "\<exists>groups k.
           chunk updates 100 = Inr groups
         \<and> concat groups = updates
         \<and> (\<forall>g \<in> set groups. g \<noteq> [] \<and> length g \<le> 100)
         \<and> k \<le> length groups
         \<and> evs = map BatchUpdate (take k groups)
         \<and> (\<forall>i < k - 1. store_error_of env (store_calls st + i) = None)
         \<and> (r = Inr () \<longrightarrow> k = length groups
               \<and> (\<forall>i < length groups. store_error_of env (store_calls st + i) = None))
         \<and> (\<forall>e. r = Inl e \<longrightarrow> 0 < k
               \<and> (\<exists>tname msg. store_error_of env (store_calls st + (k - 1)) = Some (tname, msg)
                     \<and> e = Uncaught tname msg))"
proof -
  from chunk_100 [of updates] obtain groups where
    g: "chunk updates 100 = Inr groups" "concat groups = updates"
       "\<forall>g \<in> set groups. g \<noteq> [] \<and> length g \<le> 100"
    by blast
  with assms have "flush_groups env groups st = (r, evs, st')"
    by (simp add: flush_def)
  from flush_groups_prefix [OF this] g show ?thesis by blast
qed

theorem flush_in_chunks_witness:
  "flush
     \<lparr>sms_reply_of = (\<lambda>k. Created ''SM1''), clock_of = (\<lambda>k. ''2024-01-01T00:00:00''),
      store_error_of = (\<lambda>k. if k = 1 then Some (''APIError'', ''Quota exceeded'') else None)\<rparr>
     (replicate 101 \<lparr>range_from = (2, 3), range_to = (2, 6),
                      cells = [''SENT'', ''2024-01-01T00:00:00'', ''DRYRUN'', []]\<rparr>)
     \<lparr>sms_calls = 0, clock_reads = 0, store_calls = 0\<rparr>
   = (Inl (Uncaught ''APIError'' ''Quota exceeded''),
      [BatchUpdate (replicate 100 \<lparr>range_from = (2, 3), range_to = (2, 6),
                      cells = [''SENT'', ''2024-01-01T00:00:00'', ''DRYRUN'', []]\<rparr>),
       BatchUpdate [\<lparr>range_from = (2, 3), range_to = (2, 6),
                      cells = [''SENT'', ''2024-01-01T00:00:00'', ''DRYRUN'', []]\<rparr>]],
      \<lparr>sms_calls = 0, clock_reads = 0, store_calls = 2\<rparr>)
   \<and> (\<exists>groups. chunk (replicate 101 \<lparr>range_from = (2, 3), range_to = (2, 6),
                      cells = [''SENT'', ''2024-01-01T00:00:00'', ''DRYRUN'', []]\<rparr>) 100
                 = Inr groups
               \<and> concat groups
                 = replicate 101 \<lparr>range_from = (2, 3), range_to = (2, 6),
                      cells = [''SENT'', ''2024-01-01T00:00:00'', ''DRYRUN'', []]\<rparr>
               \<and> list_all (\<lambda>g. g \<noteq> [] \<and> length g \<le> 100) groups)"
proof -
  let ?u = "\<lparr>range_from = (2, 3), range_to = (2, 6),
             cells = [''SENT'', ''2024-01-01T00:00:00'', ''DRYRUN'', []]\<rparr> :: update"
  let ?env = "\<lparr>sms_reply_of = (\<lambda>k. Created ''SM1''), clock_of = (\<lambda>k. ''2024-01-01T00:00:00''),
      store_error_of = (\<lambda>k::nat. if k = 1 then Some (''APIError'', ''Quota exceeded'') else None)\<rparr>"
  let ?st = "\<lparr>sms_calls = 0, clock_reads = 0, store_calls = 0\<rparr>"
  have d: "drop 100 (replicate 101 ?u) = [?u]" by simp
  have run: "flush ?env (replicate 101 ?u) ?st
             = (Inl (Uncaught ''APIError'' ''Quota exceeded''),
                [BatchUpdate (replicate 100 ?u), BatchUpdate [?u]],
                \<lparr>sms_calls = 0, clock_reads = 0, store_calls = 2\<rparr>)"
    by (simp add: flush_def chunk_101 d)
  from flush_in_chunks [OF run] obtain groups where
    "chunk (replicate 101 ?u) 100 = Inr groups" "concat groups = replicate 101 ?u"
    "\<forall>g \<in> set groups. g \<noteq> [] \<and> length g \<le> 100"
    by blast
  then have "\<exists>groups. chunk (replicate 101 ?u) 100 = Inr groups
               \<and> concat groups = replicate 101 ?u
               \<and> list_all (\<lambda>g. g \<noteq> [] \<and> length g \<le> 100) groups"
    by (auto simp: list_all_iff)
  with run show ?thesis by blast
qed

text \<open>
  Two runs over the same 101 updates: in the first the first \<open>batch_update\<close> raises, in
  the second the second one does. What reaches the caller is the same exception in both;
  nothing in it names the group that failed.
\<close>

theorem flush_error_names_no_chunk:
  "flush
     \<lparr>sms_reply_of = (\<lambda>k. Created ''SM1''), clock_of = (\<lambda>k. ''2024-01-01T00:00:00''),
      store_error_of = (\<lambda>k. if k = 0 then Some (''APIError'', ''Quota exceeded'') else None)\<rparr>
     (replicate 101 \<lparr>range_from = (2, 3), range_to = (2, 6),
                      cells = [''SENT'', ''2024-01-01T00:00:00'', ''DRYRUN'', []]\<rparr>)
     \<lparr>sms_calls = 0, clock_reads = 0, store_calls = 0\<rparr>
   = (Inl (Uncaught ''APIError'' ''Quota exceeded''),
      [BatchUpdate (replicate 100 \<lparr>range_from = (2, 3), range_to = (2, 6),
                      cells = [''SENT'', ''2024-01-01T00:00:00'', ''DRYRUN'', []]\<rparr>)],
      \<lparr>sms_calls = 0, clock_reads = 0, store_calls = 1\<rparr>)
   \<and> flush
     \<lparr>sms_reply_of = (\<lambda>k. Created ''SM1''), clock_of = (\<lambda>k. ''2024-01-01T00:00:00''),
      store_error_of = (\<lambda>k. if k = 1 then Some (''APIError'', ''Quota exceeded'') else None)\<rparr>
     (replicate 101 \<lparr>range_from = (2, 3), range_to = (2, 6),
                      cells = [''SENT'', ''2024-01-01T00:00:00'', ''DRYRUN'', []]\<rparr>)
     \<lparr>sms_calls = 0, clock_reads = 0, store_calls = 0\<rparr>
   = (Inl (Uncaught ''APIError'' ''Quota exceeded''),
      [BatchUpdate (replicate 100 \<lparr>range_from = (2, 3), range_to = (2, 6),
                      cells = [''SENT'', ''2024-01-01T00:00:00'', ''DRYRUN'', []]\<rparr>),
       BatchUpdate [\<lparr>range_from = (2, 3), range_to = (2, 6),
                      cells = [''SENT'', ''2024-01-01T00:00:00'', ''DRYRUN'', []]\<rparr>]],
      \<lparr>sms_calls = 0, clock_reads = 0, store_calls = 2\<rparr>)"
proof -
  let ?u = "\<lparr>range_from = (2, 3), range_to = (2, 6),
             cells = [''SENT'', ''2024-01-01T00:00:00'', ''DRYRUN'', []]\<rparr> :: update"
  have d: "drop 100 (replicate 101 ?u) = [?u]" by simp
  show ?thesis by (simp add: flush_def chunk_101 d)
qed

subsection \<open>The cap of a run and the pause between items\<close>















lemma main_run_flush_error:
  assumes "rows_to_send vals idx \<noteq> []"
    and "send_rows env cfg (slice_to (rows_to_send vals idx) cap) st = (Inr us, evs1, st1)"
    and "flush env us st1 = (Inl e, evs2, st2)"
  shows "main_run env cap cfg vals idx st = (Inl e, evs1 @ evs2, st2)"
  using assms by (simp add: main_run_def Let_def)



end
